theory Spec2Isabelle
  imports Main "HOL-Library.Char_ord" "HOL-Library.List_Lexorder"
begin

section \<open>go-sqlite: a shallow embedding of \<open>sqlite.go\<close>\<close>

text \<open>
  The package wraps \<open>database/sql\<close> over the SQLite driver: two connection pools, a
  forward-only migration runner, a transaction handle with a frozen timestamp, a
  nullable-timestamp codec and a pagination formatter. Each function of \<open>sqlite.go\<close>
  is translated below under its own name. Calls that leave the package (the driver, the
  file system, the clock) are made explicit: their outcomes come from the world the
  function runs in, and every call is appended to the world's trace.
\<close>

subsection \<open>Decimal formatting (\<open>fmt.Sprintf\<close> with the verb \<open>%d\<close>)\<close>

definition digit_char :: "nat \<Rightarrow> char" where
  "digit_char d = ''0123456789'' ! d"

fun digits :: "nat \<Rightarrow> string" where
  "digits n = (if n < 10 then [digit_char n] else digits (n div 10) @ [digit_char (n mod 10)])"

declare digits.simps [simp del]


text \<open>The value a string of decimal digits denotes, most significant digit first.\<close>

definition digit_val :: "char \<Rightarrow> nat" where
  "digit_val c = of_char c - 48"

definition is_digit :: "char \<Rightarrow> bool" where
  "is_digit c = (48 \<le> (of_char c :: nat) \<and> (of_char c :: nat) \<le> 57)"

definition dec_value :: "string \<Rightarrow> nat" where
  "dec_value s = foldl (\<lambda>a c. 10 * a + digit_val c) 0 s"

subsection \<open>\<open>FormatLimitOffset\<close>\<close>


subsection \<open>Errors and dynamically typed values\<close>

text \<open>
  An \<open>error\<close> value of the package: either built by \<open>fmt.Errorf\<close> in \<open>sqlite.go\<close>,
  or handed up unchanged from the driver, the operating system or the file system.
\<close>

datatype error =
    Errorf string \<comment> \<open>\<open>fmt.Errorf\<close> with the finished message, wrapping nothing\<close>
  | CannotCreateTable error \<comment> \<open>\<open>fmt.Errorf("cannot create migrations table: %w", err)\<close>\<close>
  | MigrationError string error \<comment> \<open>\<open>fmt.Errorf("migration error: name=%q err=%w", name, err)\<close>\<close>
  | External string \<comment> \<open>an error produced outside the package\<close>

text \<open>A call either returns or panics (a nil pointer dereference).\<close>

datatype 'a go_result = Panic | Return 'a

subsection \<open>The \<open>time\<close> package, as far as the package uses it\<close>

text \<open>
  \<open>time.Time\<close> is an instant with nanosecond precision, an optional monotonic clock
  reading and a location. The instant is kept as the number of nanoseconds since
  January 1, year 1, 00:00:00 UTC, the zero value of \<open>time.Time\<close>; its range is not
  bounded here. A location other than UTC (\<open>time.Local\<close> or a \<open>time.FixedZone\<close>) is
  kept as its offset east of UTC in seconds.
\<close>

datatype location = UTC | Zone int

record time =
  abs_ns :: int
  monotonic :: "int option"
  loc :: location

definition time_zero :: time where
  "time_zero = \<lparr>abs_ns = 0, monotonic = None, loc = UTC\<rparr>"

definition IsZero :: "time \<Rightarrow> bool" where
  "IsZero t = (abs_ns t = 0)"

definition time_UTC :: "time \<Rightarrow> time" where
  "time_UTC t = t\<lparr>loc := UTC\<rparr>"

definition Second :: int where
  "Second = 1000000000"

text \<open>
  \<open>t.Truncate(d)\<close> strips the monotonic reading and rounds the instant down to a
  multiple of \<open>d\<close> nanoseconds since the zero time; it leaves the instant alone when
  \<open>d \<le> 0\<close>.
\<close>

definition Truncate :: "time \<Rightarrow> int \<Rightarrow> time" where
  "Truncate t d =
     (if d \<le> 0 then t\<lparr>monotonic := None\<rparr>
      else t\<lparr>abs_ns := abs_ns t - abs_ns t mod d, monotonic := None\<rparr>)"

text \<open>\<open>t.Equal(u)\<close> compares the instants only.\<close>

definition Equal :: "time \<Rightarrow> time \<Rightarrow> bool" where
  "Equal t u = (abs_ns t = abs_ns u)"

text \<open>Whole seconds since the zero time.\<close>

definition abs_sec :: "time \<Rightarrow> int" where
  "abs_sec t = abs_ns t div Second"

subsubsection \<open>The proleptic Gregorian calendar\<close>

definition isLeap :: "int \<Rightarrow> bool" where
  "isLeap y = (y mod 4 = 0 \<and> (y mod 100 \<noteq> 0 \<or> y mod 400 = 0))"

text \<open>Days from January 1, year 1 to January 1 of year \<open>y\<close>.\<close>

definition days_before_year :: "int \<Rightarrow> int" where
  "days_before_year y = 365 * (y - 1) + (y - 1) div 4 - (y - 1) div 100 + (y - 1) div 400"

text \<open>\<open>daysBefore[m]\<close>: days in a non-leap year before month \<open>m + 1\<close>.\<close>

definition daysBefore :: "nat \<Rightarrow> int" where
  "daysBefore m = [0, 31, 59, 90, 120, 151, 181, 212, 243, 273, 304, 334, 365] ! m"

definition daysIn :: "nat \<Rightarrow> int \<Rightarrow> int" where
  "daysIn m y = (if m = 2 \<and> isLeap y then 29 else daysBefore m - daysBefore (m - 1))"

text \<open>
  \<open>time.Date(year, month, day, hour, min, sec, nsec, time.UTC)\<close> for fields that are in
  range: the instant of a civil date and time in UTC.
\<close>

definition Date :: "int \<Rightarrow> nat \<Rightarrow> nat \<Rightarrow> nat \<Rightarrow> nat \<Rightarrow> nat \<Rightarrow> nat \<Rightarrow> time" where
  "Date y m d hh mi ss nsec =
     (let days = days_before_year y + daysBefore (m - 1)
                 + (if isLeap y \<and> 3 \<le> m then 1 else 0) + (int d - 1)
      in \<lparr>abs_ns = (days * 86400 + int hh * 3600 + int mi * 60 + int ss) * Second + int nsec,
          monotonic = None, loc = UTC\<rparr>)"

text \<open>
  The year of a day number (days since January 1, year 1) and the day within that year:
  whole 400-year, 100-year, 4-year and 1-year cycles are cut off in turn; the last day of
  a 400-year or 4-year cycle belongs to the cycle's last year.
\<close>

definition year_of_days :: "int \<Rightarrow> int \<times> int" where
  "year_of_days d =
     (let n400 = d div 146097; d1 = d mod 146097;
          n100 = min 3 (d1 div 36524); d2 = d1 - 36524 * n100;
          n4 = d2 div 1461; d3 = d2 mod 1461;
          n1 = min 3 (d3 div 365); yday = d3 - 365 * n1
      in (400 * n400 + 100 * n100 + 4 * n4 + n1 + 1, yday))"

text \<open>Month and day of the month from the year and the day within it (from 0).\<close>

definition month_of_yday :: "int \<Rightarrow> int \<Rightarrow> nat \<times> nat" where
  "month_of_yday y yday =
     (if isLeap y \<and> yday = 59 then (2, 29)
      else
        let day = (if isLeap y \<and> 59 < yday then yday - 1 else yday);
            m = (if day < 31 then 1 else if day < 59 then 2 else if day < 90 then 3
                 else if day < 120 then 4 else if day < 151 then 5 else if day < 181 then 6
                 else if day < 212 then 7 else if day < 243 then 8 else if day < 273 then 9
                 else if day < 304 then 10 else if day < 334 then 11 else 12)
        in (m, nat (day - daysBefore (m - 1) + 1)))"

definition absDate :: "int \<Rightarrow> int \<times> nat \<times> nat" where
  "absDate d = (let (y, yday) = year_of_days d in (y, month_of_yday y yday))"

subsubsection \<open>Formatting with the layout \<open>time.RFC3339\<close>\<close>

text \<open>
  \<open>appendInt(b, x, width)\<close>: a minus sign for a negative \<open>x\<close>, then the decimal digits,
  padded with zeros on the left to at least \<open>width\<close> digits.
\<close>

definition appendInt :: "int \<Rightarrow> nat \<Rightarrow> string" where
  "appendInt x width =
     (let ds = digits (nat \<bar>x\<bar>)
      in (if x < 0 then ''-'' else []) @ replicate (width - length ds) CHR ''0'' @ ds)"

definition zone_offset :: "location \<Rightarrow> int" where
  "zone_offset l = (case l of UTC \<Rightarrow> 0 | Zone off \<Rightarrow> off)"

text \<open>
  \<open>t.Format(time.RFC3339)\<close>, layout \<open>2006-01-02T15:04:05Z07:00\<close>: the civil date and
  time in the location of \<open>t\<close>, then \<open>Z\<close> for offset zero and \<open>+hh:mm\<close> or \<open>-hh:mm\<close>
  otherwise (the offset in whole minutes, rounded towards zero).
\<close>

definition Format_RFC3339 :: "time \<Rightarrow> string" where
  "Format_RFC3339 t =
     (let offset = zone_offset (loc t);
          s = abs_sec t + offset;
          (y, m, d) = absDate (s div 86400);
          r = s mod 86400;
          zone = \<bar>offset\<bar> div 60
      in appendInt y 4 @ ''-'' @ appendInt (int m) 2 @ ''-'' @ appendInt (int d) 2 @ ''T''
         @ appendInt (r div 3600) 2 @ '':'' @ appendInt (r mod 3600 div 60) 2 @ '':''
         @ appendInt (r mod 60) 2
         @ (if offset = 0 then ''Z''
            else (if offset < 0 \<and> 0 < zone then ''-'' else ''+'')
                 @ appendInt (zone div 60) 2 @ '':'' @ appendInt (zone mod 60) 2))"

subsubsection \<open>Parsing with the layout \<open>time.RFC3339\<close>\<close>

text \<open>\<open>getnum(s, true)\<close>: exactly two decimal digits.\<close>

definition getnum2 :: "string \<Rightarrow> (nat \<times> string) option" where
  "getnum2 s =
     (case s of
        a # b # rest \<Rightarrow>
          if is_digit a \<and> is_digit b then Some (10 * digit_val a + digit_val b, rest) else None
      | _ \<Rightarrow> None)"

text \<open>\<open>getnum(s, false)\<close>: one or two decimal digits.\<close>

definition getnum12 :: "string \<Rightarrow> (nat \<times> string) option" where
  "getnum12 s =
     (case s of
        [] \<Rightarrow> None
      | a # rest \<Rightarrow>
          if \<not> is_digit a then None
          else (case rest of
                  b # rest' \<Rightarrow>
                    if is_digit b then Some (10 * digit_val a + digit_val b, rest')
                    else Some (digit_val a, rest)
                | [] \<Rightarrow> Some (digit_val a, rest)))"

text \<open>The four-digit year of \<open>stdLongYear\<close>.\<close>

definition getyear :: "string \<Rightarrow> (nat \<times> string) option" where
  "getyear s =
     (if length s < 4 \<or> \<not> list_all is_digit (take 4 s) then None
      else Some (dec_value (take 4 s), drop 4 s))"

text \<open>A literal character of the layout.\<close>

definition skip :: "char \<Rightarrow> string \<Rightarrow> string option" where
  "skip c s = (case s of [] \<Rightarrow> None | x # rest \<Rightarrow> if x = c then Some rest else None)"

text \<open>
  A fractional second after the seconds field is accepted although the layout has none:
  a period or comma and at least one digit; \<open>parseNanoseconds\<close> reads at most nine
  digits and scales them to nanoseconds.
\<close>

definition getfrac :: "string \<Rightarrow> nat \<times> string" where
  "getfrac s =
     (case s of
        sep # c # rest \<Rightarrow>
          if (sep = CHR ''.'' \<or> sep = CHR '','') \<and> is_digit c then
            let ds9 = take 9 (takeWhile is_digit (c # rest))
            in (dec_value ds9 * 10 ^ (9 - length ds9), dropWhile is_digit (c # rest))
          else (0, s)
      | _ \<Rightarrow> (0, s))"

text \<open>
  The zone of \<open>stdISO8601ColonTZ\<close>: \<open>Z\<close> for UTC, or a sign, two digits, a colon and two
  digits, with hours up to 24 and minutes up to 60. The result is \<open>None\<close> for UTC and
  the offset in seconds otherwise.
\<close>

definition getzone :: "string \<Rightarrow> (int option \<times> string) option" where
  "getzone s =
     (case s of
        [] \<Rightarrow> None
      | z # rest \<Rightarrow>
          if z = CHR ''Z'' then Some (None, rest)
          else (case rest of
                  h1 # h2 # c # m1 # m2 # rest' \<Rightarrow>
                    if c \<noteq> CHR '':'' \<or> \<not> (is_digit h1 \<and> is_digit h2 \<and> is_digit m1 \<and> is_digit m2)
                    then None
                    else
                      let hr = 10 * digit_val h1 + digit_val h2;
                          mm = 10 * digit_val m1 + digit_val m2
                      in if 24 < hr \<or> 60 < mm then None
                         else if z = CHR ''+'' then Some (Some (int ((hr * 60 + mm) * 60)), rest')
                         else if z = CHR ''-'' then Some (Some (- int ((hr * 60 + mm) * 60)), rest')
                         else None
                | _ \<Rightarrow> None))"

text \<open>
  \<open>time.Parse(time.RFC3339, s)\<close>; \<open>None\<close> stands for the parse error, with which
  \<open>time.Parse\<close> returns the zero \<open>time.Time\<close>. The day of the month is checked against
  the month and year once the whole string is read.
\<close>

definition Parse_RFC3339 :: "string \<Rightarrow> time option" where
  "Parse_RFC3339 s =
     Option.bind (getyear s) (\<lambda>(year, s1).
     Option.bind (skip CHR ''-'' s1) (\<lambda>s2.
     Option.bind (getnum2 s2) (\<lambda>(month, s3).
     if month = 0 \<or> 12 < month then None else
     Option.bind (skip CHR ''-'' s3) (\<lambda>s4.
     Option.bind (getnum2 s4) (\<lambda>(day, s5).
     Option.bind (skip CHR ''T'' s5) (\<lambda>s6.
     Option.bind (getnum12 s6) (\<lambda>(hour, s7).
     if 24 \<le> hour then None else
     Option.bind (skip CHR '':'' s7) (\<lambda>s8.
     Option.bind (getnum2 s8) (\<lambda>(minute, s9).
     if 60 \<le> minute then None else
     Option.bind (skip CHR '':'' s9) (\<lambda>s10.
     Option.bind (getnum2 s10) (\<lambda>(sec, s11).
     if 60 \<le> sec then None else
     (case getfrac s11 of (nsec, s12) \<Rightarrow>
     Option.bind (getzone s12) (\<lambda>(zone, s13).
     if s13 \<noteq> [] then None
     else if day < 1 \<or> daysIn month (int year) < int day then None
     else
       let t = Date (int year) month day hour minute sec nsec
       in (case zone of
             None \<Rightarrow> Some t
           | Some off \<Rightarrow> Some (t\<lparr>abs_ns := abs_ns t - off * Second, loc := Zone off\<rparr>)))))))))))))))"

subsection \<open>\<open>NullTime\<close>\<close>

text \<open>
  The values a \<open>driver.Value\<close> or an \<open>interface{}\<close> source can hold: the nil interface,
  the types the driver hands to \<open>Scan\<close>, and any other dynamic type under its name.
\<close>

datatype go_value =
    GoNil
  | GoString string
  | GoBytes string
  | GoInt64 int
  | GoFloat64 int \<comment> \<open>the bits of the float\<close>
  | GoBool bool
  | GoTime time
  | GoOther string \<comment> \<open>a value of the dynamic type with this name\<close>

text \<open>What \<open>%T\<close> prints.\<close>

fun type_name :: "go_value \<Rightarrow> string" where
  "type_name GoNil = ''<nil>''"
| "type_name (GoString _) = ''string''"
| "type_name (GoBytes _) = ''[]uint8''"
| "type_name (GoInt64 _) = ''int64''"
| "type_name (GoFloat64 _) = ''float64''"
| "type_name (GoBool _) = ''bool''"
| "type_name (GoTime _) = ''time.Time''"
| "type_name (GoOther n) = n"

text \<open>
  \<open>(n *NullTime).Scan(value)\<close>. The receiver is a pointer: \<open>None\<close> is the nil pointer,
  \<open>Some t\<close> points at the timestamp \<open>t\<close>. The result is the returned error and what the
  receiver points at afterwards. The first two branches store through the pointer and
  panic on a nil receiver; the last branch does not touch it.
\<close>

fun NullTime_Scan :: "time option \<Rightarrow> go_value \<Rightarrow> (error option \<times> time option) go_result" where
  "NullTime_Scan n GoNil =
     (case n of None \<Rightarrow> Panic | Some _ \<Rightarrow> Return (None, Some time_zero))"
| "NullTime_Scan n (GoString v) =
     (case n of
        None \<Rightarrow> Panic
      | Some _ \<Rightarrow>
          Return (None, Some (case Parse_RFC3339 v of None \<Rightarrow> time_zero | Some t \<Rightarrow> t)))"
| "NullTime_Scan n v =
     Return (Some (Errorf (''NullTime: cannot scan to time.Time: '' @ type_name v)), n)"

text \<open>\<open>(n *NullTime).Value()\<close>: the encoded \<open>driver.Value\<close> and the error.\<close>

definition NullTime_Value :: "time option \<Rightarrow> go_value \<times> error option" where
  "NullTime_Value n =
     (case n of
        None \<Rightarrow> (GoNil, None)
      | Some t \<Rightarrow>
          if IsZero t then (GoNil, None)
          else (GoString (Format_RFC3339 (time_UTC t)), None))"

text \<open>The nil interface, and a source whose dynamic type is \<open>string\<close>.\<close>

fun is_nil :: "go_value \<Rightarrow> bool" where
  "is_nil GoNil = True"
| "is_nil _ = False"

fun is_string :: "go_value \<Rightarrow> bool" where
  "is_string (GoString _) = True"
| "is_string _ = False"

subsection \<open>The world outside the package\<close>

text \<open>
  The SQLite database that both pools are opened on: the bookkeeping table
  \<open>migrations\<close> (absent, or the set of its rows, one per name since \<open>name\<close> is the
  primary key) and everything else, schema and data, of some type \<open>'s\<close>.
\<close>

record 's database =
  migrations :: "string set option"
  contents :: 's


datatype tx_options = TxOptions (ReadOnly: bool)

text \<open>The calls that leave the package, in the order they are made.\<close>

datatype event =
    MkdirAll string \<comment> \<open>\<open>os.MkdirAll(filepath.Dir(dsn), 0700)\<close>, under the \<open>dsn\<close>\<close>
  | SqlOpen string \<comment> \<open>\<open>sql.Open("sqlite3", dsn)\<close>\<close>
  | PoolClose string \<comment> \<open>\<open>Close\<close> on the pool opened with this DSN\<close>
  | PoolExec string string \<comment> \<open>\<open>Exec(sql)\<close> on the pool opened with this DSN\<close>
  | PoolBeginTx string "tx_options option" \<comment> \<open>\<open>Begin\<close>/\<open>BeginTx\<close> on that pool\<close>
  | TxExec string \<comment> \<open>\<open>tx.ExecContext(ctx, sql)\<close>\<close>
  | TxQueryCount string \<comment> \<open>the \<open>SELECT COUNT(*)\<close> for this name\<close>
  | FsGlob string
  | FsReadFile string
  | TxExecScript string \<comment> \<open>\<open>tx.Exec(string(buf))\<close> for the script of this name\<close>
  | TxInsertName string \<comment> \<open>the \<open>INSERT INTO migrations\<close> of this name\<close>
  | TxCommit
  | TxRollback
  | ClockNow

text \<open>
  The world: the committed database, the outcomes of the coming calls to the driver and
  the operating system (\<open>None\<close> for success; success once the list is used up), the
  trace of calls made so far, and how often the clock was read.
\<close>

record 's world =
  store :: "'s database"
  faults :: "error option list"
  trace :: "event list"
  clock_reads :: nat

definition log_call :: "event \<Rightarrow> 's world \<Rightarrow> 's world" where
  "log_call ev w = w\<lparr>trace := trace w @ [ev]\<rparr>"

text \<open>A call that can fail for reasons of its own takes the next scheduled outcome.\<close>

definition extern :: "event \<Rightarrow> 's world \<Rightarrow> error option \<times> 's world" where
  "extern ev w =
     (case faults w of
        [] \<Rightarrow> (None, log_call ev w)
      | f # fs \<Rightarrow> (f, log_call ev (w\<lparr>faults := fs\<rparr>)))"

subsubsection \<open>\<open>database/sql\<close>: pools and transactions\<close>

record pool =
  pool_dsn :: string
  MaxOpenConns :: nat
  MaxIdleConns :: nat
  ConnMaxLifetime :: nat
  ConnMaxIdleTime :: nat
  closed :: bool

definition sql_Open :: "string \<Rightarrow> 's world \<Rightarrow> (error + pool) \<times> 's world" where
  "sql_Open dsn w =
     (case extern (SqlOpen dsn) w of
        (Some err, w') \<Rightarrow> (Inl err, w')
      | (None, w') \<Rightarrow>
          (Inr \<lparr>pool_dsn = dsn, MaxOpenConns = 0, MaxIdleConns = 2, ConnMaxLifetime = 0,
                ConnMaxIdleTime = 0, closed = False\<rparr>, w'))"

text \<open>\<open>Close\<close> on a pool; the package ignores its error where it calls it in \<open>Open\<close>.\<close>

definition pool_Close :: "pool \<Rightarrow> 's world \<Rightarrow> pool \<times> 's world" where
  "pool_Close p w = (p\<lparr>closed := True\<rparr>, snd (extern (PoolClose (pool_dsn p)) w))"

text \<open>
  A transaction works on its own copy of the database, taken when it begins; the
  committed database changes only when the transaction commits.
\<close>

record 's sql_tx =
  working :: "'s database"
  finished :: bool

definition pool_Begin :: "pool \<Rightarrow> tx_options option \<Rightarrow> 's world \<Rightarrow> (error + 's sql_tx) \<times> 's world" where
  "pool_Begin p opts w =
     (case extern (PoolBeginTx (pool_dsn p) opts) w of
        (Some err, w') \<Rightarrow> (Inl err, w')
      | (None, w') \<Rightarrow> (Inr \<lparr>working = store w', finished = False\<rparr>, w'))"


text \<open>
  \<open>tx.Rollback()\<close> with its error ignored: on a finished transaction it returns
  \<open>sql.ErrTxDone\<close> without reaching the driver; otherwise the working copy is dropped.
\<close>

definition tx_Rollback :: "'s sql_tx \<Rightarrow> 's world \<Rightarrow> 's world" where
  "tx_Rollback tx w = (if finished tx then w else snd (extern TxRollback w))"





subsubsection \<open>\<open>io/fs\<close>: the script collection\<close>


subsection \<open>\<open>DB\<close>: \<open>NewDB\<close>, \<open>Open\<close>, \<open>openMemory\<close>\<close>

text \<open>
  The manager. \<open>Now\<close> is a \<open>func() time.Time\<close>: the function from the number of
  earlier calls to the value the next call returns. The context and its cancel function
  are used by \<open>Close\<close> only and left out.
\<close>

record DB =
  rwDB :: "pool option"
  roDB :: "pool option"
  DSN :: string
  Now :: "nat \<Rightarrow> time"

text \<open>\<open>NewDB(dsn)\<close>; \<open>time_Now\<close> is the system clock \<open>time.Now\<close>.\<close>

definition NewDB :: "(nat \<Rightarrow> time) \<Rightarrow> string \<Rightarrow> DB" where
  "NewDB time_Now dsn = \<lparr>rwDB = None, roDB = None, DSN = dsn, Now = time_Now\<rparr>"

text \<open>
  \<open>db.openMemory()\<close> and \<open>db.Open()\<close> return the error and leave the manager and the
  world changed. An assignment \<open>db.rwDB, err = sql.Open(...)\<close> stores the nil pool when
  \<open>sql.Open\<close> fails.
\<close>

definition openMemory :: "DB \<Rightarrow> 's world \<Rightarrow> error option \<times> DB \<times> 's world" where
  "openMemory d w =
     (let dsn = ''file::memory:?cache=shared&_foreign_keys=on'' in
      case sql_Open dsn w of
        (Inl err, w1) \<Rightarrow> (Some err, d\<lparr>rwDB := None\<rparr>, w1)
      | (Inr rw, w1) \<Rightarrow>
          let rw' = rw\<lparr>MaxOpenConns := 1, MaxIdleConns := 1, ConnMaxLifetime := 0,
                       ConnMaxIdleTime := 0\<rparr>
          in (case sql_Open dsn w1 of
                (Inl err, w2) \<Rightarrow>
                  (case pool_Close rw' w2 of
                     (rw'', w3) \<Rightarrow> (Some err, d\<lparr>rwDB := Some rw'', roDB := None\<rparr>, w3))
              | (Inr ro, w2) \<Rightarrow>
                  (None, d\<lparr>rwDB := Some rw',
                            roDB := Some (ro\<lparr>MaxOpenConns := 10, MaxIdleConns := 5\<rparr>)\<rparr>, w2)))"

definition Open :: "DB \<Rightarrow> 's world \<Rightarrow> error option \<times> DB \<times> 's world" where
  "Open d w =
     (if DSN d = '''' then (Some (Errorf ''dsn required''), d, w)
      else if DSN d = '':memory:'' then openMemory d w
      else
        case extern (MkdirAll (DSN d)) w of
          (Some err, w0) \<Rightarrow> (Some err, d, w0)
        | (None, w0) \<Rightarrow>
            let baseDSN = DSN d @ ''?_journal_mode=wal&_foreign_keys=on&_busy_timeout=5000'' in
            (case sql_Open baseDSN w0 of
               (Inl err, w1) \<Rightarrow> (Some err, d\<lparr>rwDB := None\<rparr>, w1)
             | (Inr rw, w1) \<Rightarrow>
                 let rw' = rw\<lparr>MaxOpenConns := 1, MaxIdleConns := 1, ConnMaxLifetime := 0,
                              ConnMaxIdleTime := 0\<rparr>;
                     roDSN = baseDSN @ ''&mode=ro''
                 in (case sql_Open roDSN w1 of
                       (Inl err, w2) \<Rightarrow>
                         (case pool_Close rw' w2 of
                            (rw'', w3) \<Rightarrow> (Some err, d\<lparr>rwDB := Some rw'', roDB := None\<rparr>, w3))
                     | (Inr ro, w2) \<Rightarrow>
                         (None, d\<lparr>rwDB := Some rw',
                                   roDB := Some (ro\<lparr>MaxOpenConns := 10, MaxIdleConns := 5\<rparr>)\<rparr>,
                          w2))))"




subsection \<open>\<open>Migrate\<close> and \<open>migrateFile\<close>\<close>





subsection \<open>\<open>Tx\<close>: \<open>BeginTx\<close>, \<open>BeginReadTx\<close>, \<open>Now\<close>\<close>

record 's Tx =
  Tx_tx :: "'s sql_tx"
  Tx_db :: DB
  Tx_now :: time

text \<open>\<open>db.Now()\<close>: one more reading of the manager's clock.\<close>

definition read_clock :: "DB \<Rightarrow> 's world \<Rightarrow> time \<times> 's world" where
  "read_clock d w = (Now d (clock_reads w), log_call ClockNow (w\<lparr>clock_reads := Suc (clock_reads w)\<rparr>))"

text \<open>
  \<open>db.BeginTx(ctx, opts)\<close>; a cancelled context is one of the ways the driver calls can
  fail. It panics when the write pool is nil.
\<close>

definition BeginTx ::
  "DB \<Rightarrow> tx_options option \<Rightarrow> 's world \<Rightarrow> ((error + 's Tx) \<times> 's world) go_result" where
  "BeginTx d opts w =
     (case rwDB d of
        None \<Rightarrow> Panic
      | Some p \<Rightarrow>
          (case pool_Begin p opts w of
             (Inl err, w1) \<Rightarrow> Return (Inl err, w1)
           | (Inr tx, w1) \<Rightarrow>
               (case extern (TxExec ''ROLLBACK; BEGIN IMMEDIATE'') w1 of
                  (Some err, w2) \<Rightarrow> Return (Inl err, tx_Rollback tx w2)
                | (None, w2) \<Rightarrow>
                    (case read_clock d w2 of
                       (t, w3) \<Rightarrow>
                         Return (Inr \<lparr>Tx_tx = tx\<lparr>working := store w2\<rparr>, Tx_db = d,
                                      Tx_now = Truncate (time_UTC t) Second\<rparr>, w3)))))"

text \<open>\<open>db.BeginReadTx(ctx)\<close>; it panics when the read pool is nil.\<close>

definition BeginReadTx :: "DB \<Rightarrow> 's world \<Rightarrow> ((error + 's Tx) \<times> 's world) go_result" where
  "BeginReadTx d w =
     (case roDB d of
        None \<Rightarrow> Panic
      | Some p \<Rightarrow>
          (case pool_Begin p (Some (TxOptions True)) w of
             (Inl err, w1) \<Rightarrow> Return (Inl err, w1)
           | (Inr tx, w1) \<Rightarrow>
               (case read_clock d w1 of
                  (t, w2) \<Rightarrow>
                    Return (Inr \<lparr>Tx_tx = tx, Tx_db = d,
                                 Tx_now = Truncate (time_UTC t) Second\<rparr>, w2))))"

text \<open>\<open>tx.Now()\<close>.\<close>

definition Tx_Now :: "'s Tx \<Rightarrow> time" where
  "Tx_Now tx = Tx_now tx"

subsection \<open>Example values\<close>


definition world0 :: "string list world" where
  "world0 = \<lparr>store = \<lparr>migrations = None, contents = []\<rparr>, faults = [], trace = [],
             clock_reads = 0\<rparr>"

definition ticking_clock :: "nat \<Rightarrow> time" where
  "ticking_clock k =
     \<lparr>abs_ns = 63872539200500000000 + int k * 1500000000, monotonic = Some (int k),
      loc = Zone 3600\<rparr>"

text \<open>The manager and the world after \<open>Open\<close> on the in-memory marker in \<open>world0\<close>.\<close>

definition memory_db :: DB where
  "memory_db = fst (snd (Open (NewDB ticking_clock '':memory:'') world0))"

definition world1 :: "string list world" where
  "world1 = snd (snd (Open (NewDB ticking_clock '':memory:'') world0))"

subsection \<open>Notions the properties are stated with\<close>




text \<open>The names of the scripts that a list of calls read or executed.\<close>

fun script_of :: "event \<Rightarrow> string option" where
  "script_of (FsReadFile n) = Some n"
| "script_of (TxExecScript n) = Some n"
| "script_of _ = None"

definition scripts_touched :: "event list \<Rightarrow> string list" where
  "scripts_touched evs = List.map_filter script_of evs"




text \<open>The year, in UTC, of an instant.\<close>

definition utc_year :: "time \<Rightarrow> int" where
  "utc_year t = fst (absDate (abs_sec t div 86400))"


section \<open>Properties\<close>

subsection \<open>Decimal digits\<close>

lemma lt10_cases:
  "d < (10::nat) \<Longrightarrow>
   d = 0 \<or> d = 1 \<or> d = 2 \<or> d = 3 \<or> d = 4 \<or> d = 5 \<or> d = 6 \<or> d = 7 \<or> d = 8 \<or> d = 9"
  by arith

lemma digit_char_val: "d < 10 \<Longrightarrow> digit_val (digit_char d) = d"
  using lt10_cases [of d] by (auto simp add: digit_char_def digit_val_def)

lemma digit_char_is_digit: "d < 10 \<Longrightarrow> is_digit (digit_char d)"
  using lt10_cases [of d] by (auto simp add: digit_char_def is_digit_def)

lemma dec_value_snoc: "dec_value (s @ [c]) = 10 * dec_value s + digit_val c"
  by (simp add: dec_value_def)

lemma dec_value_digits: "dec_value (digits n) = n"
proof (induction n rule: digits.induct)
  case (1 n)
  show ?case
  proof (cases "n < 10")
    case True
    then show ?thesis
      by (subst digits.simps) (simp add: dec_value_def digit_char_val)
  next
    case False
    with "1.IH" have "dec_value (digits (n div 10)) = n div 10" by simp
    with False show ?thesis
      by (subst digits.simps) (simp add: dec_value_snoc digit_char_val)
  qed
qed

lemma digits_all_digits: "\<forall>c \<in> set (digits n). is_digit c"
proof (induction n rule: digits.induct)
  case (1 n)
  show ?case
  proof (cases "n < 10")
    case True
    then show ?thesis
      by (subst digits.simps) (simp add: digit_char_is_digit)
  next
    case False
    with "1.IH" have "\<forall>c \<in> set (digits (n div 10)). is_digit c" by simp
    with False show ?thesis
      by (subst digits.simps) (simp add: digit_char_is_digit)
  qed
qed



subsection \<open>C4: the four cases of \<open>FormatLimitOffset\<close>\<close>



subsection \<open>\<open>NullTime\<close>: the shapes of the source value\<close>

lemma Scan_nil_source: "NullTime_Scan (Some t) GoNil = Return (None, Some time_zero)"
  by simp

lemma Scan_string_source:
  "NullTime_Scan (Some t) (GoString s) =
     Return (None, Some (case Parse_RFC3339 s of None \<Rightarrow> time_zero | Some u \<Rightarrow> u))"
  by simp

lemma Scan_other_source:
  assumes "\<not> is_nil v" and "\<not> is_string v"
  shows "NullTime_Scan n v =
           Return (Some (Errorf (''NullTime: cannot scan to time.Time: '' @ type_name v)), n)"
  using assms by (cases v) simp_all

lemma Parse_test_string:
  "Parse_RFC3339 ''2025-01-15T12:00:00Z'' = Some (Date 2025 1 15 12 0 0 0)"
  by code_simp




text \<open>
  Claim C9. \<open>Value\<close> on the nil receiver returns the null marker and no error, as it
  does on a receiver that points at the zero instant, whatever that timestamp's location
  and monotonic reading.
\<close>

theorem NullTime_Value_nil_receiver:
  "NullTime_Value None = (GoNil, None) \<and>
   NullTime_Value (Some time_zero) = NullTime_Value None \<and>
   NullTime_Value (Some (t\<lparr>abs_ns := 0\<rparr>)) = NullTime_Value None"
  by (simp add: NullTime_Value_def IsZero_def time_zero_def)

text \<open>
  Claim C10. Only a source of dynamic type \<open>string\<close> is decoded as text: for every
  source that is neither nil nor a string, \<open>Scan\<close> returns the type-mismatch error and
  the receiver (nil or not) is what it was. So it is for a byte slice that carries a
  well-formed RFC 3339 timestamp.
\<close>

theorem NullTime_Scan_string_only:
  "\<not> is_nil v \<Longrightarrow> \<not> is_string v \<Longrightarrow>
   NullTime_Scan n v =
     Return (Some (Errorf (''NullTime: cannot scan to time.Time: '' @ type_name v)), n)"
  by (rule Scan_other_source)

theorem NullTime_Scan_string_only_witness:
  "Parse_RFC3339 ''2025-01-15T12:00:00Z'' = Some (Date 2025 1 15 12 0 0 0) \<and>
   NullTime_Scan (Some time_zero) (GoBytes ''2025-01-15T12:00:00Z'')
     = Return (Some (Errorf ''NullTime: cannot scan to time.Time: []uint8''), Some time_zero)"
  using NullTime_Scan_string_only [of "GoBytes ''2025-01-15T12:00:00Z''" "Some time_zero"]
    Parse_test_string
  by simp

subsection \<open>\<open>Open\<close>\<close>









text \<open>
  Claim C8. \<open>Open\<close> on a manager whose DSN is empty returns the error \<open>dsn required\<close>
  at once: the manager is returned as it was, so a new manager's two pools stay nil, and
  the world is as it was, so no directory was created, no pool opened and no scheduled
  outcome used up.
\<close>

theorem Open_empty_dsn:
  "(DSN d = [] \<longrightarrow> Open d w = (Some (Errorf ''dsn required''), d, w)) \<and>
   Open (NewDB c []) w = (Some (Errorf ''dsn required''), NewDB c [], w) \<and>
   rwDB (NewDB c []) = None \<and> roDB (NewDB c []) = None"
  by (simp add: Open_def NewDB_def)

theorem Open_empty_dsn_witness:
  "DSN (NewDB ticking_clock []) = [] \<and>
   Open (NewDB ticking_clock []) world0
     = (Some (Errorf ''dsn required''), NewDB ticking_clock [], world0) \<and>
   trace world0 = []"
  using Open_empty_dsn [of "NewDB ticking_clock []" world0]
  by (simp add: NewDB_def world0_def)




subsection \<open>\<open>Tx.Now\<close>\<close>

lemma Truncate_UTC_Second:
  "Truncate (time_UTC t) Second = \<lparr>abs_ns = abs_sec t * Second, monotonic = None, loc = UTC\<rparr>"
  by (simp add: Truncate_def time_UTC_def Second_def abs_sec_def minus_mod_eq_div_mult)

lemma BeginTx_now:
  assumes "BeginTx d opts w = Return (Inr tx, w')"
  shows "Tx_now tx = Truncate (time_UTC (Now d (clock_reads w))) Second
         \<and> clock_reads w' = Suc (clock_reads w)"
  using assms
  by (auto simp: BeginTx_def pool_Begin_def read_clock_def extern_def log_call_def tx_Rollback_def
      split: option.splits prod.splits sum.splits list.splits if_splits)

lemma BeginReadTx_now:
  assumes "BeginReadTx d w = Return (Inr tx, w')"
  shows "Tx_now tx = Truncate (time_UTC (Now d (clock_reads w))) Second
         \<and> clock_reads w' = Suc (clock_reads w)"
  using assms
  by (auto simp: BeginReadTx_def pool_Begin_def read_clock_def extern_def log_call_def
      split: option.splits prod.splits sum.splits list.splits if_splits)

lemma memory_db_eq:
  "memory_db =
     \<lparr>rwDB = Some \<lparr>pool_dsn = ''file::memory:?cache=shared&_foreign_keys=on'', MaxOpenConns = 1,
                   MaxIdleConns = 1, ConnMaxLifetime = 0, ConnMaxIdleTime = 0, closed = False\<rparr>,
      roDB = Some \<lparr>pool_dsn = ''file::memory:?cache=shared&_foreign_keys=on'', MaxOpenConns = 10,
                   MaxIdleConns = 5, ConnMaxLifetime = 0, ConnMaxIdleTime = 0, closed = False\<rparr>,
      DSN = '':memory:'', Now = ticking_clock\<rparr>"
  by (simp add: memory_db_def Open_def openMemory_def NewDB_def world0_def sql_Open_def extern_def
      log_call_def Let_def)

lemma world1_eq:
  "world1 =
     \<lparr>store = \<lparr>migrations = None, contents = []\<rparr>, faults = [],
      trace = [SqlOpen ''file::memory:?cache=shared&_foreign_keys=on'',
               SqlOpen ''file::memory:?cache=shared&_foreign_keys=on''],
      clock_reads = 0\<rparr>"
  by (simp add: world1_def Open_def openMemory_def NewDB_def world0_def sql_Open_def extern_def
      log_call_def Let_def)

text \<open>
  Claim C3. For a handle returned by \<open>BeginTx\<close> or \<open>BeginReadTx\<close>, \<open>Now\<close> is the one
  reading of the manager's clock taken during the call, in UTC, without monotonic
  reading and cut down to the whole second. It is a function of the handle alone: no
  later reading of the clock and no change of the manager the handle refers to alters
  it. Under a clock that returns the same instant at every reading, it is that instant
  in UTC cut down to the second.
\<close>

theorem Tx_Now_frozen:
  assumes "BeginTx d opts w = Return (Inr tx, w') \<or> BeginReadTx d w = Return (Inr tx, w')"
  shows "Tx_Now tx = Truncate (time_UTC (Now d (clock_reads w))) Second \<and>
         clock_reads w' = Suc (clock_reads w) \<and>
         loc (Tx_Now tx) = UTC \<and>
         abs_ns (Tx_Now tx) = abs_sec (Now d (clock_reads w)) * Second \<and>
         Tx_Now (tx\<lparr>Tx_db := d2\<rparr>) = Tx_Now tx \<and>
         ((\<forall>k. Now d k = t0) \<longrightarrow> Tx_Now tx = Truncate (time_UTC t0) Second)"
proof -
  from assms have
    n: "Tx_now tx = Truncate (time_UTC (Now d (clock_reads w))) Second"
    and c: "clock_reads w' = Suc (clock_reads w)"
    using BeginTx_now BeginReadTx_now by blast+
  from n have "loc (Tx_now tx) = UTC"
    and "abs_ns (Tx_now tx) = abs_sec (Now d (clock_reads w)) * Second"
    by (simp_all add: Truncate_UTC_Second)
  with n c show ?thesis
    by (simp add: Tx_Now_def)
qed

theorem Tx_Now_frozen_witness:
  "\<exists>tx w' tx2 w''.
     BeginTx memory_db None world1 = Return (Inr tx, w') \<and>
     Tx_Now tx = Date 2025 1 15 12 0 0 0 \<and>
     BeginReadTx memory_db w' = Return (Inr tx2, w'') \<and>
     Tx_Now tx2 = Date 2025 1 15 12 0 2 0 \<and>
     Tx_Now (tx\<lparr>Tx_db := NewDB (\<lambda>k. time_zero) '':memory:''\<rparr>) = Date 2025 1 15 12 0 0 0"
proof -
  obtain tx w' where b: "BeginTx memory_db None world1 = Return (Inr tx, w')"
    and f: "faults w' = []"
    by (simp add: BeginTx_def memory_db_eq world1_eq pool_Begin_def read_clock_def extern_def
        log_call_def)
  obtain tx2 w'' where r: "BeginReadTx memory_db w' = Return (Inr tx2, w'')"
    by (simp add: BeginReadTx_def memory_db_eq pool_Begin_def read_clock_def extern_def
        log_call_def f)
  have c0: "clock_reads world1 = 0"
    by (simp add: world1_eq)
  have n: "Now memory_db = ticking_clock"
    by (simp add: memory_db_eq)
  have t0: "abs_sec (ticking_clock 0) * Second = abs_ns (Date 2025 1 15 12 0 0 0)"
    by code_simp
  have t1: "abs_sec (ticking_clock (Suc 0)) * Second = abs_ns (Date 2025 1 15 12 0 2 0)"
    by code_simp
  have d: "monotonic (Date y m dd hh mi ss ns) = None" "loc (Date y m dd hh mi ss ns) = UTC"
    for y m dd hh mi ss ns
    by (simp_all add: Date_def Let_def)
  from Tx_Now_frozen [of memory_db None world1 tx w' "NewDB (\<lambda>k. time_zero) '':memory:''"] b
  have 1: "Tx_Now tx = Truncate (time_UTC (ticking_clock 0)) Second"
    and 2: "clock_reads w' = Suc 0"
    and 3: "Tx_Now (tx\<lparr>Tx_db := NewDB (\<lambda>k. time_zero) '':memory:''\<rparr>) = Tx_Now tx"
    by (simp_all add: c0 n)
  from Tx_Now_frozen [of memory_db None w' tx2 w''] r 2
  have 4: "Tx_Now tx2 = Truncate (time_UTC (ticking_clock (Suc 0))) Second"
    by (simp add: n)
  from 1 t0 have 5: "Tx_Now tx = Date 2025 1 15 12 0 0 0"
    by (simp add: Truncate_UTC_Second d)
  from 4 t1 have 6: "Tx_Now tx2 = Date 2025 1 15 12 0 2 0"
    by (simp add: Truncate_UTC_Second d)
  from b r 3 5 6 show ?thesis
    by auto
qed

subsection \<open>The driver operations\<close>


lemma log_call_facts [simp]:
  "trace (log_call ev w) = trace w @ [ev]" "store (log_call ev w) = store w"
  by (simp_all add: log_call_def)






lemma scripts_touched_append [simp]:
  "scripts_touched (xs @ ys) = scripts_touched xs @ scripts_touched ys"
  by (simp add: scripts_touched_def List.map_filter_def)

lemma scripts_touched_simps [simp]:
  "scripts_touched [] = []"
  "scripts_touched (ev # evs) = (case script_of ev of None \<Rightarrow> [] | Some n \<Rightarrow> [n]) @ scripts_touched evs"
  by (simp_all add: scripts_touched_def List.map_filter_simps split: option.splits)







subsection \<open>The migration loop\<close>

























subsection \<open>The calendar: day numbers and civil dates\<close>

lemma div_const_unique:
  "0 < k \<Longrightarrow> 0 \<le> r \<Longrightarrow> r < k \<Longrightarrow> (k * a + r) div k = (a::int)"
  by (simp add: div_pos_pos_trivial)

lemma isLeap_cycles:
  fixes a b c e :: int
  assumes "0 \<le> b" "b \<le> 3" "0 \<le> c" "c \<le> 24" "0 \<le> e" "e \<le> 3"
  shows "isLeap (400 * a + 100 * b + 4 * c + e + 1) = (e = 3 \<and> (c \<noteq> 24 \<or> b = 3))"
proof -
  let ?y = "400 * a + 100 * b + 4 * c + e + 1"
  have m4: "?y mod 4 = (e + 1) mod 4"
    using mod_mult_self4 [of 4 "100 * a + 25 * b + c" "e + 1"] by (simp add: algebra_simps)
  have m100: "?y mod 100 = (4 * c + e + 1) mod 100"
    using mod_mult_self4 [of 100 "4 * a + b" "4 * c + e + 1"] by (simp add: algebra_simps)
  have m400: "?y mod 400 = (100 * b + 4 * c + e + 1) mod 400"
    using mod_mult_self4 [of 400 a "100 * b + 4 * c + e + 1"] by (simp add: algebra_simps)
  have r4: "0 \<le> e + 1" "e + 1 \<le> 4" using assms by auto
  have r100: "0 < 4 * c + e + 1" "4 * c + e + 1 \<le> 100" using assms by auto
  have r400: "0 < 100 * b + 4 * c + e + 1" "100 * b + 4 * c + e + 1 \<le> 400" using assms by auto
  have le_mod: "x mod k = 0 \<longleftrightarrow> x = k" if "0 < x" "x \<le> k" for x k :: int
    using that by (metis mod_pos_pos_trivial mod_self order_le_less less_irrefl zero_less_iff_neq_zero order_less_imp_le)
  have "e + 1 = 4 \<longleftrightarrow> e = 3" by auto
  moreover have "4 * c + e + 1 = 100 \<longleftrightarrow> c = 24 \<and> e = 3"
    using assms(3-6) by arith
  moreover have "100 * b + 4 * c + e + 1 = 400 \<longleftrightarrow> b = 3 \<and> c = 24 \<and> e = 3"
    using assms by arith
  moreover have "0 < e + 1" using assms by simp
  ultimately have 4: "(e + 1) mod 4 = 0 \<longleftrightarrow> e = 3"
    and 100: "(4 * c + e + 1) mod 100 = 0 \<longleftrightarrow> c = 24 \<and> e = 3"
    and 400: "(100 * b + 4 * c + e + 1) mod 400 = 0 \<longleftrightarrow> b = 3 \<and> c = 24 \<and> e = 3"
    using le_mod [of "e + 1" 4] le_mod [OF r100] le_mod [OF r400] r4 by simp_all
  show ?thesis
    unfolding isLeap_def m4 m100 m400 4 100 400 by blast
qed

text \<open>The cycles that \<open>year_of_days\<close> cuts off.\<close>

lemma year_of_days_cycles:
  obtains a b c e yd :: int where
    "year_of_days D = (400 * a + 100 * b + 4 * c + e + 1, yd)"
    "D = 146097 * a + 36524 * b + 1461 * c + 365 * e + yd"
    "0 \<le> b" "b \<le> 3" "0 \<le> c" "c \<le> 24" "0 \<le> e" "e \<le> 3" "0 \<le> yd" "yd \<le> 365"
    "yd = 365 \<longrightarrow> e = 3 \<and> (c \<noteq> 24 \<or> b = 3)"
proof -
  define a where "a = D div 146097"
  define d1 where "d1 = D mod 146097"
  define q1 where "q1 = d1 div 36524"
  define r1 where "r1 = d1 mod 36524"
  define b where "b = min 3 q1"
  define d2 where "d2 = d1 - 36524 * b"
  define c where "c = d2 div 1461"
  define d3 where "d3 = d2 mod 1461"
  define q3 where "q3 = d3 div 365"
  define r3 where "r3 = d3 mod 365"
  define e where "e = min 3 q3"
  define yd where "yd = d3 - 365 * e"
  have y: "year_of_days D = (400 * a + 100 * b + 4 * c + e + 1, yd)"
    by (simp only: year_of_days_def Let_def a_def d1_def b_def q1_def d2_def c_def d3_def e_def
        q3_def yd_def)
  have D: "D = 146097 * a + d1"
    by (simp add: a_def d1_def)
  have d1: "0 \<le> d1" "d1 < 146097"
    by (simp_all add: d1_def)
  have d1q: "d1 = 36524 * q1 + r1" and r1: "0 \<le> r1" "r1 < 36524"
    by (simp_all add: q1_def r1_def)
  have q1: "0 \<le> q1" "q1 \<le> 4"
    using d1 d1q r1 by linarith+
  have b: "0 \<le> b" "b \<le> 3"
    using q1 by (simp_all add: b_def)
  have "0 \<le> d2 \<and> d2 \<le> 36524 \<and> (d2 = 36524 \<longrightarrow> b = 3)"
  proof (cases "q1 \<le> 3")
    case True
    then have "b = q1" by (simp add: b_def)
    then have "d2 = r1" using d1q by (simp add: d2_def)
    with r1 show ?thesis by simp
  next
    case False
    with q1 have q4: "q1 = 4" by linarith
    then have b3: "b = 3" by (simp add: b_def)
    with q4 d1q have "d2 = 36524 + r1" by (simp add: d2_def)
    moreover from q4 d1q d1 have "r1 \<le> 0" by linarith
    ultimately show ?thesis
      using r1 b3 by simp
  qed
  then have d2: "0 \<le> d2" "d2 \<le> 36524" "d2 = 36524 \<longrightarrow> b = 3"
    by simp_all
  have d2c: "d2 = 1461 * c + d3" and d3: "0 \<le> d3" "d3 < 1461"
    by (simp_all add: c_def d3_def)
  have c: "0 \<le> c" "c \<le> 24"
    using d2 d2c d3 by linarith+
  have d3q: "d3 = 365 * q3 + r3" and r3: "0 \<le> r3" "r3 < 365"
    by (simp_all add: q3_def r3_def)
  have q3: "0 \<le> q3" "q3 \<le> 4"
    using d3 d3q r3 by linarith+
  have e: "0 \<le> e" "e \<le> 3"
    using q3 by (simp_all add: e_def)
  have "0 \<le> yd \<and> yd \<le> 365 \<and> (yd = 365 \<longrightarrow> e = 3 \<and> d3 = 1460)"
  proof (cases "q3 \<le> 3")
    case True
    then have "e = q3" by (simp add: e_def)
    then have "yd = r3" using d3q by (simp add: yd_def)
    with r3 show ?thesis by simp
  next
    case False
    with q3 have q4: "q3 = 4" by linarith
    then have e3: "e = 3" by (simp add: e_def)
    with q4 d3q have "yd = 365 + r3" by (simp add: yd_def)
    moreover from q4 d3q d3 have "r3 \<le> 0" by linarith
    ultimately show ?thesis
      using r3 e3 q4 d3q by simp
  qed
  then have yd: "0 \<le> yd" "yd \<le> 365" "yd = 365 \<longrightarrow> e = 3 \<and> d3 = 1460"
    by simp_all
  have l: "yd = 365 \<longrightarrow> e = 3 \<and> (c \<noteq> 24 \<or> b = 3)"
  proof (intro impI conjI)
    assume h: "yd = 365"
    with yd show "e = 3" by simp
    from h yd have "d3 = 1460" by simp
    with d2c have "c = 24 \<longrightarrow> d2 = 36524" by simp
    with d2 show "c \<noteq> 24 \<or> b = 3" by blast
  qed
  have "D = 146097 * a + 36524 * b + 1461 * c + 365 * e + yd"
    using D d2c unfolding d2_def yd_def by linarith
  with y b c e yd l show ?thesis
    using that by blast
qed

lemma days_before_year_cycles:
  fixes a b c e :: int
  assumes "0 \<le> b" "b \<le> 3" "0 \<le> c" "c \<le> 24" "0 \<le> e" "e \<le> 3"
  shows "days_before_year (400 * a + 100 * b + 4 * c + e + 1)
           = 146097 * a + 36524 * b + 1461 * c + 365 * e"
proof -
  define Y where "Y = 400 * a + 100 * b + 4 * c + e"
  have "Y = 400 * a + (100 * b + 4 * c + e)"
    by (simp add: Y_def)
  then have "Y div 400 = (400 * a + (100 * b + 4 * c + e)) div 400"
    by (rule arg_cong)
  also have "\<dots> = a"
    by (rule div_const_unique) (use assms in auto)
  finally have d400: "Y div 400 = a" .
  have "Y = 100 * (4 * a + b) + (4 * c + e)"
    by (simp add: Y_def)
  then have "Y div 100 = (100 * (4 * a + b) + (4 * c + e)) div 100"
    by (rule arg_cong)
  also have "\<dots> = 4 * a + b"
    by (rule div_const_unique) (use assms in auto)
  finally have d100: "Y div 100 = 4 * a + b" .
  have "Y = 4 * (100 * a + 25 * b + c) + e"
    by (simp add: Y_def)
  then have "Y div 4 = (4 * (100 * a + 25 * b + c) + e) div 4"
    by (rule arg_cong)
  also have "\<dots> = 100 * a + 25 * b + c"
    by (rule div_const_unique) (use assms in auto)
  finally have d4: "Y div 4 = 100 * a + 25 * b + c" .
  have "days_before_year (Y + 1) = 365 * Y + Y div 4 - Y div 100 + Y div 400"
    by (simp add: days_before_year_def)
  also have "\<dots> = 146097 * a + 36524 * b + 1461 * c + 365 * e"
    unfolding d400 d100 d4 by (simp add: Y_def)
  finally show ?thesis
    by (simp add: Y_def)
qed

lemma year_of_days_correct:
  assumes "year_of_days D = (y, yd)"
  shows "days_before_year y + yd = D \<and> 0 \<le> yd \<and> yd < (if isLeap y then 366 else 365)"
proof -
  obtain a b c e yd' :: int where
    h: "year_of_days D = (400 * a + 100 * b + 4 * c + e + 1, yd')"
    "D = 146097 * a + 36524 * b + 1461 * c + 365 * e + yd'"
    "0 \<le> b" "b \<le> 3" "0 \<le> c" "c \<le> 24" "0 \<le> e" "e \<le> 3" "0 \<le> yd'" "yd' \<le> 365"
    "yd' = 365 \<longrightarrow> e = 3 \<and> (c \<noteq> 24 \<or> b = 3)"
    by (rule year_of_days_cycles)
  from h(1) assms have y: "y = 400 * a + 100 * b + 4 * c + e + 1" and yd: "yd = yd'"
    by simp_all
  have 1: "days_before_year y + yd = D"
    unfolding y yd days_before_year_cycles [OF h(3-8)] using h(2) by simp
  have l: "isLeap y = (e = 3 \<and> (c \<noteq> 24 \<or> b = 3))"
    unfolding y by (rule isLeap_cycles [OF h(3-8)])
  have 2: "yd < (if isLeap y then 366 else 365)"
  proof (cases "yd' = 365")
    case True
    with h(11) l have "isLeap y" by simp
    with True yd show ?thesis by simp
  next
    case False
    with h(10) yd have "yd < 365" by simp
    then show ?thesis by simp
  qed
  from 1 2 h(9) yd show ?thesis by simp
qed

lemma daysBefore_simps:
  "daysBefore 0 = 0" "daysBefore 1 = 31" "daysBefore 2 = 59" "daysBefore 3 = 90"
  "daysBefore 4 = 120" "daysBefore 5 = 151" "daysBefore 6 = 181" "daysBefore 7 = 212"
  "daysBefore 8 = 243" "daysBefore 9 = 273" "daysBefore 10 = 304" "daysBefore 11 = 334"
  "daysBefore 12 = 365" "daysBefore (Suc 0) = 31"
  by (simp_all add: daysBefore_def)

lemma month_of_yday_correct:
  assumes "0 \<le> yd" "yd < (if isLeap y then 366 else 365)" "month_of_yday y yd = (m, d)"
  shows "1 \<le> m \<and> m \<le> 12 \<and> 1 \<le> d \<and> int d \<le> daysIn m y \<and>
         daysBefore (m - 1) + (if isLeap y \<and> 3 \<le> m then 1 else 0) + (int d - 1) = yd"
proof (cases "isLeap y \<and> yd = 59")
  case True
  then have "month_of_yday y yd = (2, 29)"
    unfolding month_of_yday_def by (rule if_P)
  with assms(3) have "m = 2" "d = 29"
    by simp_all
  with True show ?thesis
    by (simp add: daysIn_def daysBefore_simps)
next
  case nl: False
  define day where "day = (if isLeap y \<and> 59 < yd then yd - 1 else yd)"
  define M :: nat where
    "M = (if day < 31 then 1 else if day < 59 then 2 else if day < 90 then 3
          else if day < 120 then 4 else if day < 151 then 5 else if day < 181 then 6
          else if day < 212 then 7 else if day < 243 then 8 else if day < 273 then 9
          else if day < 304 then 10 else if day < 334 then 11 else 12)"
  have day: "0 \<le> day" "day < 365" "day < 59 \<longrightarrow> yd = day"
    "59 \<le> day \<longrightarrow> yd = day + (if isLeap y then 1 else 0)"
  proof -
    show "0 \<le> day" using assms(1) by (simp add: day_def)
    show "day < 365" using assms(2) by (cases "isLeap y") (simp_all add: day_def)
    show "day < 59 \<longrightarrow> yd = day" using nl by (cases "isLeap y") (auto simp: day_def)
    show "59 \<le> day \<longrightarrow> yd = day + (if isLeap y then 1 else 0)"
      using nl by (cases "isLeap y") (auto simp: day_def)
  qed
  have "month_of_yday y yd = (M, nat (day - daysBefore (M - 1) + 1))"
    unfolding month_of_yday_def Let_def M_def day_def by (rule if_not_P [OF nl])
  with assms(3) [symmetric] have "(m, d) = (M, nat (day - daysBefore (M - 1) + 1))"
    by (rule trans)
  then have mM: "m = M" and dM: "d = nat (day - daysBefore (M - 1) + 1)"
    by (simp_all only: prod.inject)
  have c12: ?thesis if "334 \<le> day"
  proof -
    from that day have r: "334 \<le> day" "day < 365" by simp_all
    have m: "m = 12"
      unfolding mM M_def using r by simp
    have d: "int d = day - 334 + 1"
      unfolding dM mM [symmetric] m using r by (simp add: daysBefore_simps)
    have yd: "yd = day + (if isLeap y \<and> (3::nat) \<le> 12 then 1 else 0)"
      using r day(3,4) by simp
    show ?thesis
      unfolding m using r d yd by (simp add: daysIn_def daysBefore_simps)
  qed
  have c11: ?thesis if "304 \<le> day"
  proof (cases "334 \<le> day")
    case True
    then show ?thesis by (rule c12)
  next
    case False
    with that have r: "304 \<le> day" "day < 334" by simp_all
    have m: "m = 11"
      unfolding mM M_def using r by simp
    have d: "int d = day - 304 + 1"
      unfolding dM mM [symmetric] m using r by (simp add: daysBefore_simps)
    have yd: "yd = day + (if isLeap y \<and> (3::nat) \<le> 11 then 1 else 0)"
      using r day(3,4) by simp
    show ?thesis
      unfolding m using r d yd by (simp add: daysIn_def daysBefore_simps)
  qed
  have c10: ?thesis if "273 \<le> day"
  proof (cases "304 \<le> day")
    case True
    then show ?thesis by (rule c11)
  next
    case False
    with that have r: "273 \<le> day" "day < 304" by simp_all
    have m: "m = 10"
      unfolding mM M_def using r by simp
    have d: "int d = day - 273 + 1"
      unfolding dM mM [symmetric] m using r by (simp add: daysBefore_simps)
    have yd: "yd = day + (if isLeap y \<and> (3::nat) \<le> 10 then 1 else 0)"
      using r day(3,4) by simp
    show ?thesis
      unfolding m using r d yd by (simp add: daysIn_def daysBefore_simps)
  qed
  have c9: ?thesis if "243 \<le> day"
  proof (cases "273 \<le> day")
    case True
    then show ?thesis by (rule c10)
  next
    case False
    with that have r: "243 \<le> day" "day < 273" by simp_all
    have m: "m = 9"
      unfolding mM M_def using r by simp
    have d: "int d = day - 243 + 1"
      unfolding dM mM [symmetric] m using r by (simp add: daysBefore_simps)
    have yd: "yd = day + (if isLeap y \<and> (3::nat) \<le> 9 then 1 else 0)"
      using r day(3,4) by simp
    show ?thesis
      unfolding m using r d yd by (simp add: daysIn_def daysBefore_simps)
  qed
  have c8: ?thesis if "212 \<le> day"
  proof (cases "243 \<le> day")
    case True
    then show ?thesis by (rule c9)
  next
    case False
    with that have r: "212 \<le> day" "day < 243" by simp_all
    have m: "m = 8"
      unfolding mM M_def using r by simp
    have d: "int d = day - 212 + 1"
      unfolding dM mM [symmetric] m using r by (simp add: daysBefore_simps)
    have yd: "yd = day + (if isLeap y \<and> (3::nat) \<le> 8 then 1 else 0)"
      using r day(3,4) by simp
    show ?thesis
      unfolding m using r d yd by (simp add: daysIn_def daysBefore_simps)
  qed
  have c7: ?thesis if "181 \<le> day"
  proof (cases "212 \<le> day")
    case True
    then show ?thesis by (rule c8)
  next
    case False
    with that have r: "181 \<le> day" "day < 212" by simp_all
    have m: "m = 7"
      unfolding mM M_def using r by simp
    have d: "int d = day - 181 + 1"
      unfolding dM mM [symmetric] m using r by (simp add: daysBefore_simps)
    have yd: "yd = day + (if isLeap y \<and> (3::nat) \<le> 7 then 1 else 0)"
      using r day(3,4) by simp
    show ?thesis
      unfolding m using r d yd by (simp add: daysIn_def daysBefore_simps)
  qed
  have c6: ?thesis if "151 \<le> day"
  proof (cases "181 \<le> day")
    case True
    then show ?thesis by (rule c7)
  next
    case False
    with that have r: "151 \<le> day" "day < 181" by simp_all
    have m: "m = 6"
      unfolding mM M_def using r by simp
    have d: "int d = day - 151 + 1"
      unfolding dM mM [symmetric] m using r by (simp add: daysBefore_simps)
    have yd: "yd = day + (if isLeap y \<and> (3::nat) \<le> 6 then 1 else 0)"
      using r day(3,4) by simp
    show ?thesis
      unfolding m using r d yd by (simp add: daysIn_def daysBefore_simps)
  qed
  have c5: ?thesis if "120 \<le> day"
  proof (cases "151 \<le> day")
    case True
    then show ?thesis by (rule c6)
  next
    case False
    with that have r: "120 \<le> day" "day < 151" by simp_all
    have m: "m = 5"
      unfolding mM M_def using r by simp
    have d: "int d = day - 120 + 1"
      unfolding dM mM [symmetric] m using r by (simp add: daysBefore_simps)
    have yd: "yd = day + (if isLeap y \<and> (3::nat) \<le> 5 then 1 else 0)"
      using r day(3,4) by simp
    show ?thesis
      unfolding m using r d yd by (simp add: daysIn_def daysBefore_simps)
  qed
  have c4: ?thesis if "90 \<le> day"
  proof (cases "120 \<le> day")
    case True
    then show ?thesis by (rule c5)
  next
    case False
    with that have r: "90 \<le> day" "day < 120" by simp_all
    have m: "m = 4"
      unfolding mM M_def using r by simp
    have d: "int d = day - 90 + 1"
      unfolding dM mM [symmetric] m using r by (simp add: daysBefore_simps)
    have yd: "yd = day + (if isLeap y \<and> (3::nat) \<le> 4 then 1 else 0)"
      using r day(3,4) by simp
    show ?thesis
      unfolding m using r d yd by (simp add: daysIn_def daysBefore_simps)
  qed
  have c3: ?thesis if "59 \<le> day"
  proof (cases "90 \<le> day")
    case True
    then show ?thesis by (rule c4)
  next
    case False
    with that have r: "59 \<le> day" "day < 90" by simp_all
    have m: "m = 3"
      unfolding mM M_def using r by simp
    have d: "int d = day - 59 + 1"
      unfolding dM mM [symmetric] m using r by (simp add: daysBefore_simps)
    have yd: "yd = day + (if isLeap y \<and> (3::nat) \<le> 3 then 1 else 0)"
      using r day(3,4) by simp
    show ?thesis
      unfolding m using r d yd by (simp add: daysIn_def daysBefore_simps)
  qed
  have c2: ?thesis if "31 \<le> day"
  proof (cases "59 \<le> day")
    case True
    then show ?thesis by (rule c3)
  next
    case False
    with that have r: "31 \<le> day" "day < 59" by simp_all
    have m: "m = 2"
      unfolding mM M_def using r by simp
    have d: "int d = day - 31 + 1"
      unfolding dM mM [symmetric] m using r by (simp add: daysBefore_simps)
    have yd: "yd = day + (if isLeap y \<and> (3::nat) \<le> 2 then 1 else 0)"
      using r day(3,4) by simp
    show ?thesis
      unfolding m using r d yd by (simp add: daysIn_def daysBefore_simps)
  qed
  have c1: ?thesis if "0 \<le> day"
  proof (cases "31 \<le> day")
    case True
    then show ?thesis by (rule c2)
  next
    case False
    with that have r: "0 \<le> day" "day < 31" by simp_all
    have m: "m = 1"
      unfolding mM M_def using r by simp
    have d: "int d = day - 0 + 1"
      unfolding dM mM [symmetric] m using r by (simp add: daysBefore_simps)
    have yd: "yd = day + (if isLeap y \<and> (3::nat) \<le> 1 then 1 else 0)"
      using r day(3,4) by simp
    show ?thesis
      unfolding m using r d yd by (simp add: daysIn_def daysBefore_simps)
  qed
  from c1 day(1) show ?thesis by simp
qed

subsection \<open>RFC 3339: parsing what was formatted\<close>

lemma digit_char_0: "digit_char 0 = CHR ''0''"
  by (simp add: digit_char_def)

lemma digits_1: "n < 10 \<Longrightarrow> digits n = [digit_char n]"
  by (subst digits.simps) simp

lemma digits_2:
  "10 \<le> n \<Longrightarrow> n < 100 \<Longrightarrow> digits n = [digit_char (n div 10), digit_char (n mod 10)]"
  by (subst digits.simps) (simp add: digits_1)

lemma digits_3:
  "100 \<le> n \<Longrightarrow> n < 1000 \<Longrightarrow>
   digits n = [digit_char (n div 100), digit_char (n div 10 mod 10), digit_char (n mod 10)]"
  by (subst digits.simps) (simp add: digits_2 div_mult2_eq [symmetric])

lemma digits_4:
  "1000 \<le> n \<Longrightarrow> n < 10000 \<Longrightarrow>
   digits n = [digit_char (n div 1000), digit_char (n div 100 mod 10),
               digit_char (n div 10 mod 10), digit_char (n mod 10)]"
  by (subst digits.simps) (simp add: digits_3 div_mult2_eq [symmetric])

lemma replicate_small:
  "replicate 3 c = [c, c, c]" "replicate 2 c = [c, c]" "replicate (Suc 0) c = [c]"
  by (simp_all add: numeral_3_eq_3 numeral_2_eq_2)

lemma appendInt_2:
  assumes "0 \<le> x" "x < 100"
  shows "appendInt x 2 = [digit_char (nat x div 10), digit_char (nat x mod 10)]"
proof (cases "nat x < 10")
  case True
  with assms show ?thesis
    by (simp add: appendInt_def digits_1 digit_char_0)
next
  case False
  with assms show ?thesis
    by (simp add: appendInt_def digits_2)
qed

lemma appendInt_4:
  assumes "0 \<le> x" "x < 10000"
  shows "appendInt x 4 = [digit_char (nat x div 1000), digit_char (nat x div 100 mod 10),
                          digit_char (nat x div 10 mod 10), digit_char (nat x mod 10)]"
proof -
  define n where "n = nat x"
  have n: "n < 10000" "\<bar>x\<bar> = x" "\<not> x < 0" using assms by (simp_all add: n_def)
  consider "n < 10" | "10 \<le> n" "n < 100" | "100 \<le> n" "n < 1000" | "1000 \<le> n"
    by linarith
  then have "replicate (4 - length (digits n)) CHR ''0'' @ digits n
               = [digit_char (n div 1000), digit_char (n div 100 mod 10),
                  digit_char (n div 10 mod 10), digit_char (n mod 10)]"
  proof cases
    case 1
    then show ?thesis by (simp add: digits_1 digit_char_0 replicate_small)
  next
    case 2
    then show ?thesis by (simp add: digits_2 digit_char_0 replicate_small)
  next
    case 3
    then show ?thesis by (simp add: digits_3 digit_char_0 replicate_small)
  next
    case 4
    with n show ?thesis by (simp add: digits_4)
  qed
  with n show ?thesis
    by (simp add: appendInt_def Let_def n_def)
qed

lemma getnum2_appendInt:
  "0 \<le> x \<Longrightarrow> x < 100 \<Longrightarrow> getnum2 (appendInt x 2 @ rest) = Some (nat x, rest)"
  by (simp add: appendInt_2 getnum2_def digit_char_is_digit digit_char_val)

lemma getnum12_appendInt:
  "0 \<le> x \<Longrightarrow> x < 100 \<Longrightarrow> getnum12 (appendInt x 2 @ rest) = Some (nat x, rest)"
  by (simp add: appendInt_2 getnum12_def digit_char_is_digit digit_char_val)

lemma four_digits:
  "1000 * (n div 1000 mod 10) + 100 * (n div 100 mod 10) + 10 * (n div 10 mod 10) + n mod 10
     = n mod 10000" for n :: nat
proof -
  have a: "n mod 10000 = 1000 * (n div 1000 mod 10) + n mod 1000"
    using mod_mult2_eq [of n 1000 10] by simp
  have b: "n mod 1000 = 100 * (n div 100 mod 10) + n mod 100"
    using mod_mult2_eq [of n 100 10] by simp
  have c: "n mod 100 = 10 * (n div 10 mod 10) + n mod 10"
    using mod_mult2_eq [of n 10 10] by simp
  from a b c show ?thesis by simp
qed

lemma getyear_appendInt:
  assumes "0 \<le> x" "x < 10000"
  shows "getyear (appendInt x 4 @ rest) = Some (nat x, rest)"
proof -
  define n where "n = nat x"
  have n: "n < 10000" using assms by (simp add: n_def)
  have d: "n div 1000 < 10" "n div 100 mod 10 < 10" "n div 10 mod 10 < 10" "n mod 10 < 10"
    using n by simp_all
  have "dec_value [digit_char (n div 1000), digit_char (n div 100 mod 10),
                   digit_char (n div 10 mod 10), digit_char (n mod 10)]
          = 1000 * (n div 1000) + 100 * (n div 100 mod 10) + 10 * (n div 10 mod 10) + n mod 10"
    using d by (simp add: dec_value_def digit_char_val)
  also have "\<dots> = n"
    using four_digits [of n] n by simp
  finally have v: "dec_value [digit_char (n div 1000), digit_char (n div 100 mod 10),
                   digit_char (n div 10 mod 10), digit_char (n mod 10)] = n" .
  show ?thesis
    unfolding appendInt_4 [OF assms] n_def [symmetric]
    using d v by (simp add: getyear_def digit_char_is_digit)
qed

lemma skip_Cons: "skip c (c # rest) = Some rest"
  by (simp add: skip_def)

lemma getfrac_Z: "getfrac ''Z'' = (0, ''Z'')"
  by (simp add: getfrac_def)

lemma getzone_Z: "getzone ''Z'' = Some (None, [])"
  by (simp add: getzone_def)

lemma month_cases:
  "1 \<le> m \<Longrightarrow> m \<le> (12::nat) \<Longrightarrow>
   m = 1 \<or> m = 2 \<or> m = 3 \<or> m = 4 \<or> m = 5 \<or> m = 6 \<or> m = 7 \<or> m = 8 \<or> m = 9 \<or> m = 10
   \<or> m = 11 \<or> m = 12"
  by arith

lemma daysIn_le_31: "1 \<le> m \<Longrightarrow> m \<le> 12 \<Longrightarrow> daysIn m y \<le> 31"
  using month_cases [of m] by (auto simp: daysIn_def daysBefore_simps)

lemma Format_UTC:
  assumes "absDate (abs_sec t div 86400) = (y, m, d)" and "abs_sec t mod 86400 = r"
  shows "Format_RFC3339 (time_UTC t)
           = appendInt y 4 @ ''-'' @ appendInt (int m) 2 @ ''-'' @ appendInt (int d) 2 @ ''T''
             @ appendInt (r div 3600) 2 @ '':'' @ appendInt (r mod 3600 div 60) 2 @ '':''
             @ appendInt (r mod 60) 2 @ ''Z''"
proof -
  have s: "abs_sec (time_UTC t) = abs_sec t"
    by (simp add: abs_sec_def time_UTC_def)
  show ?thesis
    unfolding Format_RFC3339_def s
    by (simp add: time_UTC_def zone_offset_def assms)
qed


lemma Parse_canonical:
  assumes "0 \<le> y" "y \<le> 9999" "1 \<le> m" "m \<le> 12" "1 \<le> d" "int d \<le> daysIn m y"
    "0 \<le> hh" "hh < 24" "0 \<le> mi" "mi < 60" "0 \<le> ss" "ss < 60"
  shows "Parse_RFC3339
           (appendInt y 4 @ ''-'' @ appendInt (int m) 2 @ ''-'' @ appendInt (int d) 2 @ ''T''
            @ appendInt hh 2 @ '':'' @ appendInt mi 2 @ '':'' @ appendInt ss 2 @ ''Z'')
         = Some (Date y m d (nat hh) (nat mi) (nat ss) 0)"
proof -
  from daysIn_le_31 [OF assms(3,4), of y] assms(6) have d: "int d < 100" by simp
  have y: "y < 10000" using assms(2) by simp
  have m: "int m < 100" "0 \<le> int m" "0 \<le> int d" using assms(4) by simp_all
  have h: "hh < 100" "mi < 100" "ss < 100" using assms by simp_all
  have n: "nat hh < 24" "nat mi < 60" "nat ss < 60" using assms by linarith+
  show ?thesis
    using assms n
    by (simp add: Parse_RFC3339_def getyear_appendInt [OF assms(1) y]
        getnum2_appendInt [OF m(2) m(1)] getnum2_appendInt [OF m(3) d]
        getnum12_appendInt [OF assms(7) h(1)] getnum2_appendInt [OF assms(9) h(2)]
        getnum2_appendInt [OF assms(11) h(3)] skip_Cons getfrac_Z getzone_Z)
qed

lemma clock_fields:
  fixes r :: int
  assumes "0 \<le> r" "r < 86400"
  shows "0 \<le> r div 3600" "r div 3600 < 24" "0 \<le> r mod 3600 div 60" "r mod 3600 div 60 < 60"
    "0 \<le> r mod 60" "r mod 60 < 60"
    "(r div 3600) * 3600 + (r mod 3600 div 60) * 60 + r mod 60 = r"
proof -
  show "0 \<le> r div 3600" "r div 3600 < 24" using assms by simp_all
  show "0 \<le> r mod 3600 div 60" "r mod 3600 div 60 < 60" by simp_all
  show "0 \<le> r mod 60" "r mod 60 < 60" by simp_all
  have "r mod 3600 = 60 * (r mod 3600 div 60) + r mod 3600 mod 60"
    by simp
  moreover have "r mod 3600 mod 60 = r mod 60"
    by (simp add: mod_mod_cancel)
  moreover have "r = 3600 * (r div 3600) + r mod 3600"
    by simp
  ultimately show "(r div 3600) * 3600 + (r mod 3600 div 60) * 60 + r mod 60 = r"
    by linarith
qed

lemma round_trip:
  assumes "0 \<le> utc_year t" "utc_year t \<le> 9999"
  shows "Parse_RFC3339 (Format_RFC3339 (time_UTC t))
           = Some \<lparr>abs_ns = abs_sec t * Second, monotonic = None, loc = UTC\<rparr>"
proof -
  define S where "S = abs_sec t"
  define D where "D = S div 86400"
  define r where "r = S mod 86400"
  obtain y yd where yy: "year_of_days D = (y, yd)"
    by (cases "year_of_days D")
  obtain m d where md: "month_of_yday y yd = (m, d)"
    by (cases "month_of_yday y yd")
  from year_of_days_correct [OF yy] have
    1: "days_before_year y + yd = D" "0 \<le> yd" "yd < (if isLeap y then 366 else 365)"
    by simp_all
  from month_of_yday_correct [OF 1(2,3) md] have
    2: "1 \<le> m" "m \<le> 12" "1 \<le> d" "int d \<le> daysIn m y"
      "daysBefore (m - 1) + (if isLeap y \<and> 3 \<le> m then 1 else 0) + (int d - 1) = yd"
    by simp_all
  have a: "absDate D = (y, m, d)"
    by (simp add: absDate_def yy md)
  with assms have y: "0 \<le> y" "y \<le> 9999"
    by (simp_all add: utc_year_def S_def D_def)
  have r: "0 \<le> r" "r < 86400"
    by (simp_all add: r_def)
  note c = clock_fields [OF r]
  have f: "Format_RFC3339 (time_UTC t)
             = appendInt y 4 @ ''-'' @ appendInt (int m) 2 @ ''-'' @ appendInt (int d) 2 @ ''T''
               @ appendInt (r div 3600) 2 @ '':'' @ appendInt (r mod 3600 div 60) 2 @ '':''
               @ appendInt (r mod 60) 2 @ ''Z''"
    by (rule Format_UTC) (simp_all add: a [unfolded D_def S_def] r_def S_def)
  have "Parse_RFC3339 (Format_RFC3339 (time_UTC t))
          = Some (Date y m d (nat (r div 3600)) (nat (r mod 3600 div 60)) (nat (r mod 60)) 0)"
    unfolding f by (rule Parse_canonical [OF y 2(1-4) c(1-6)])
  moreover have "Date y m d (nat (r div 3600)) (nat (r mod 3600 div 60)) (nat (r mod 60)) 0
                   = \<lparr>abs_ns = S * Second, monotonic = None, loc = UTC\<rparr>"
  proof -
    have days: "days_before_year y + daysBefore (m - 1)
                  + (if isLeap y \<and> 3 \<le> m then 1 else 0) + (int d - 1) = D"
      using 1(1) 2(5) by linarith
    have "S = D * 86400 + r"
      by (simp add: D_def r_def)
    with c(7) have "D * 86400 + (r div 3600) * 3600 + (r mod 3600 div 60) * 60 + r mod 60 = S"
      by linarith
    with c(1,3,5) show ?thesis
      unfolding Date_def Let_def days by simp
  qed
  ultimately show ?thesis
    by (simp add: S_def)
qed

lemma appendInt_10000: "appendInt 10000 4 = ''10000''"
  by (simp add: appendInt_def Let_def digits.simps [of 10000] digits_4 digit_char_def)

lemma appendInt_small:
  "appendInt 0 2 = ''00''" "appendInt 1 2 = ''01''" "appendInt 12 2 = ''12''"
  "appendInt 15 2 = ''15''" "appendInt 2025 4 = ''2025''"
  by (simp_all add: appendInt_2 appendInt_4 digit_char_def)

lemma year_10000_fields:
  "abs_sec (Date 10000 1 1 0 0 0 0) = 315537897600"
  "absDate (315537897600 div 86400) = (10000, 1, 1)"
  "(315537897600::int) mod 86400 = 0"
  by code_simp+

lemma Format_year_10000:
  "Format_RFC3339 (time_UTC (Date 10000 1 1 0 0 0 0)) = ''10000-01-01T00:00:00Z''"
proof -
  have "absDate (abs_sec (Date 10000 1 1 0 0 0 0) div 86400) = (10000, 1, 1)"
    and "abs_sec (Date 10000 1 1 0 0 0 0) mod 86400 = 0"
    unfolding year_10000_fields by simp_all
  from Format_UTC [OF this] show ?thesis
    by (simp add: appendInt_10000 appendInt_small)
qed

lemma ticking_fields:
  "abs_sec (ticking_clock 0) = 63872539200"
  "absDate (63872539200 div 86400) = (2025, 1, 15)"
  "(63872539200::int) mod 86400 = 43200"
  "(43200::int) div 3600 = 12" "(43200::int) mod 3600 div 60 = 0" "(43200::int) mod 60 = 0"
  by code_simp+

lemma Format_ticking:
  "Format_RFC3339 (time_UTC (ticking_clock 0)) = ''2025-01-15T12:00:00Z''"
proof -
  have "absDate (abs_sec (ticking_clock 0) div 86400) = (2025, 1, 15)"
    and "abs_sec (ticking_clock 0) mod 86400 = 43200"
    unfolding ticking_fields by simp_all
  from Format_UTC [OF this] show ?thesis
    unfolding ticking_fields by (simp add: appendInt_small)
qed

lemma Parse_year_10000: "Parse_RFC3339 ''10000-01-01T00:00:00Z'' = None"
  by code_simp

lemma utc_year_ticking: "utc_year (ticking_clock 0) = 2025"
  unfolding utc_year_def ticking_fields by simp

subsection \<open>\<open>NullTime\<close>: the round trip\<close>

text \<open>
  Claim C5, as stated, fails for an instant whose year in UTC has five digits: the text
  that \<open>Value\<close> produces for January 1 of the year 10000 does not parse under
  RFC 3339, and \<open>Scan\<close> stores the zero instant without an error.
\<close>

theorem NullTime_round_trip_year_10000:
  "\<not> IsZero (Date 10000 1 1 0 0 0 0) \<and>
   NullTime_Value (Some (Date 10000 1 1 0 0 0 0)) = (GoString ''10000-01-01T00:00:00Z'', None) \<and>
   NullTime_Scan (Some time_zero) (GoString ''10000-01-01T00:00:00Z'')
     = Return (None, Some time_zero) \<and>
   \<not> Equal time_zero (Truncate (Date 10000 1 1 0 0 0 0) Second)"
proof -
  have z: "\<not> IsZero (Date 10000 1 1 0 0 0 0)"
    by code_simp
  have e: "\<not> Equal time_zero (Truncate (Date 10000 1 1 0 0 0 0) Second)"
    by code_simp
  have v: "NullTime_Value (Some (Date 10000 1 1 0 0 0 0))
             = (GoString ''10000-01-01T00:00:00Z'', None)"
    by (simp only: NullTime_Value_def option.case z if_False Format_year_10000)
  have s: "NullTime_Scan (Some time_zero) (GoString ''10000-01-01T00:00:00Z'')
             = Return (None, Some time_zero)"
    by (simp only: NullTime_Scan.simps option.case Parse_year_10000)
  from z v s e show ?thesis
    by (intro conjI)
qed

text \<open>
  Claim C5, amended. For every instant that is not the zero instant and whose year in
  UTC lies between 0 and 9999, \<open>Value\<close> yields a text and no error, and \<open>Scan\<close> of that
  text stores, without error, the instant cut down to the whole second, in UTC. \<open>Value\<close>
  of a zero instant is the null marker, and \<open>Scan\<close> of the null marker stores the zero
  instant.
\<close>

theorem NullTime_round_trip:
  assumes "\<not> IsZero t" "0 \<le> utc_year t" "utc_year t \<le> 9999"
  shows "(\<exists>s u. NullTime_Value (Some t) = (GoString s, None) \<and>
            NullTime_Scan (Some r) (GoString s) = Return (None, Some u) \<and>
            abs_ns u = abs_sec t * Second \<and> Equal u (Truncate t Second) \<and> loc u = UTC) \<and>
         (IsZero z \<longrightarrow> NullTime_Value (Some z) = (GoNil, None)) \<and>
         NullTime_Scan (Some r) GoNil = Return (None, Some time_zero) \<and> IsZero time_zero"
proof -
  let ?u = "\<lparr>abs_ns = abs_sec t * Second, monotonic = None, loc = UTC\<rparr>"
  from assms(1) have v: "NullTime_Value (Some t) = (GoString (Format_RFC3339 (time_UTC t)), None)"
    by (simp add: NullTime_Value_def)
  from round_trip [OF assms(2,3)] have
    s: "NullTime_Scan (Some r) (GoString (Format_RFC3339 (time_UTC t))) = Return (None, Some ?u)"
    by simp
  have e: "Equal ?u (Truncate t Second)"
    by (simp add: Equal_def Truncate_def Second_def abs_sec_def minus_mod_eq_div_mult)
  from v s e have "\<exists>s u. NullTime_Value (Some t) = (GoString s, None) \<and>
            NullTime_Scan (Some r) (GoString s) = Return (None, Some u) \<and>
            abs_ns u = abs_sec t * Second \<and> Equal u (Truncate t Second) \<and> loc u = UTC"
    by (intro exI [of _ "Format_RFC3339 (time_UTC t)"] exI [of _ ?u]) simp
  then show ?thesis
    by (simp add: NullTime_Value_def IsZero_def time_zero_def)
qed

lemma ticking_nonzero: "\<not> IsZero (ticking_clock 0)"
  by code_simp

lemma Value_ticking:
  "NullTime_Value (Some (ticking_clock 0)) = (GoString ''2025-01-15T12:00:00Z'', None)"
  by (simp only: NullTime_Value_def option.case ticking_nonzero if_False Format_ticking)

theorem NullTime_round_trip_witness:
  "\<not> IsZero (ticking_clock 0) \<and> utc_year (ticking_clock 0) = 2025 \<and>
   NullTime_Value (Some (ticking_clock 0)) = (GoString ''2025-01-15T12:00:00Z'', None) \<and>
   (\<exists>u. NullTime_Scan (Some time_zero) (GoString ''2025-01-15T12:00:00Z'')
           = Return (None, Some u) \<and>
        abs_ns u = 63872539200000000000 \<and> loc u = UTC) \<and>
   IsZero time_zero \<and> NullTime_Value (Some time_zero) = (GoNil, None)"
proof -
  have y: "0 \<le> utc_year (ticking_clock 0)" "utc_year (ticking_clock 0) \<le> 9999"
    by (simp_all add: utc_year_ticking)
  from NullTime_round_trip [OF ticking_nonzero y, of time_zero time_zero]
  obtain s u where
    a: "NullTime_Value (Some (ticking_clock 0)) = (GoString s, None)"
       "NullTime_Scan (Some time_zero) (GoString s) = Return (None, Some u)"
       "abs_ns u = abs_sec (ticking_clock 0) * Second" "loc u = UTC"
    and z: "IsZero time_zero" "NullTime_Value (Some time_zero) = (GoNil, None)"
    by auto
  from a(1) Value_ticking have "s = ''2025-01-15T12:00:00Z''"
    by simp
  with a z ticking_nonzero utc_year_ticking ticking_fields(1) Value_ticking show ?thesis
    by (simp add: Second_def)
qed

end
